theory Spec2Isabelle
  imports Main "HOL-Library.Word"
begin

section \<open>The Orchestrator's data model (orchestrator.h)\<close>

text \<open>
  The enumerations of the header are datatypes with the constructors in the order of the
  source. \<open>OrchestratorModuleType\<close> is declared in \<^verbatim>\<open>data_structure.h\<close>; its members are the
  kinds the header's opening comment lists, plus \<open>Unknown\<close>, the default of \<open>Module::type\<close>.
\<close>

datatype Result = Failed | Succeeded | Exists | NotExists

datatype ItemState = Unknown | Applied | NeedToCheck | NotChanged | New | Changed | Delete

datatype OrchestratorModuleType =
  UnknownModule | ProviderModule | MediaRouterModule | TranscoderModule | PublisherModule

text \<open>
  Identifiers are \<open>uint32_t\<close> in the engine (\<open>info::application_id_t\<close>,
  \<open>info::stream_id_t\<close>). A \<open>std::shared_ptr\<close> is modelled by the identity of the object it
  points to, a natural number.
\<close>

type_synonym application_id_t = "32 word"
type_synonym stream_id_t = "32 word"
type_synonym ref = nat

subsection \<open>The configuration read by the \<open>Origin\<close> constructor\<close>

text \<open>
  The constructor reads \<open>origin_config.GetLocation()\<close>, \<open>origin_config.GetPass().GetScheme()\<close>,
  \<open>origin_config.GetPass().GetUrlList()\<close> and \<open>item.GetUrl()\<close>. The classes of the
  configuration are records whose fields are these getters.
\<close>

record cfg_Url =
  GetUrl :: string

record cfg_Pass =
  GetScheme :: string
  GetUrlList :: "cfg_Url list"

record cfg_OriginsOrigin =
  GetLocation :: string
  GetPass :: cfg_Pass

subsection \<open>\<open>struct Origin\<close>\<close>

record Origin =
  app_id :: application_id_t
  scheme :: string
  location :: string
  url_list :: "string list"
  origin_config :: cfg_OriginsOrigin
  origin_stream_map :: "stream_id_t \<rightharpoonup> ref"
  origin_state :: ItemState

text \<open>\<open>ov::String::Prepend\<close> and \<open>std::vector::push_back\<close>.\<close>

definition Prepend :: "string \<Rightarrow> string \<Rightarrow> string" where
  "Prepend prefix s = prefix @ s"

definition Append :: "string \<Rightarrow> string \<Rightarrow> string" where
  "Append suffix s = s @ suffix"

definition push_back :: "'a list \<Rightarrow> 'a \<Rightarrow> 'a list" where
  "push_back xs x = xs @ [x]"

text \<open>
  The body of the constructor's \<open>for\<close> loop, one item at a time. \<open>auto url = item.GetUrl()\<close>
  copies the URL into a local variable; both \<open>Prepend\<close> calls change that copy, and
  \<open>url_list.push_back(item.GetUrl())\<close> stores the item's own URL.
\<close>

fun Origin_url_loop :: "string \<Rightarrow> cfg_Url list \<Rightarrow> string list \<Rightarrow> string list" where
  "Origin_url_loop sch [] urls = urls"
| "Origin_url_loop sch (item # items) urls =
     (let url = GetUrl item;
          url = Prepend ''://'' url;
          url = Prepend sch url
      in Origin_url_loop sch items (push_back urls (GetUrl item)))"

definition Origin_ctor :: "cfg_OriginsOrigin \<Rightarrow> Origin" where
  "Origin_ctor config =
     \<lparr> app_id = 0,
       scheme = GetScheme (GetPass config),
       location = GetLocation config,
       url_list = Origin_url_loop (GetScheme (GetPass config)) (GetUrlList (GetPass config)) [],
       origin_config = config,
       origin_stream_map = Map.empty,
       origin_state = New \<rparr>"

definition Origin_IsValid :: "Origin \<Rightarrow> bool" where
  "Origin_IsValid origin = (origin_state origin \<noteq> Unknown)"

subsection \<open>\<open>struct Domain\<close>\<close>

text \<open>
  A \<open>std::regex\<close> object is either default-constructed or compiled from a pattern. The
  constructor \<open>std::regex(pattern)\<close> belongs to the C++ library: whether it throws
  \<open>std::regex_error\<close> on a pattern is a parameter \<open>throws\<close> of the model. A
  default-constructed \<open>std::regex\<close> matches no character sequence (C++ standard,
  [re.regex.construct]); how a compiled one matches is a parameter \<open>regex_match\<close>.
\<close>

datatype std_regex = regex_default | regex_of string

record Domain =
  name :: string
  regex_for_domain :: std_regex
  domain_stream_map :: "stream_id_t \<rightharpoonup> ref"
  domain_state :: ItemState

text \<open>
  The character class of the regular expression \<open>special_characters\<close>: its members are
  the characters \<^verbatim>\<open>[ \ . / + { } $ ^ |\<close> (the backslash, escaped in the class, is the
  character 0x5C).
\<close>

definition special_characters :: "char list" where
  "special_characters =
     [CHR ''['', CHR 0x5C, CHR ''.'', CHR ''/'', CHR ''+'',
      CHR ''{'', CHR ''}'', CHR ''$'', CHR ''^'', CHR ''|'']"

text \<open>
  \<open>std::regex_replace(name, special_characters, "\$&")\<close>: every character of the class is
  replaced by a backslash followed by the character itself (\<open>$&\<close> is the match); every
  other character is copied.
\<close>

definition regex_replace_special :: "string \<Rightarrow> string" where
  "regex_replace_special s =
     concat (map (\<lambda>c. if c \<in> set special_characters then [CHR 0x5C, c] else [c]) s)"

text \<open>\<open>ov::String::Replace\<close> with a token of one character: every occurrence is replaced.\<close>

definition Replace :: "char \<Rightarrow> string \<Rightarrow> string \<Rightarrow> string" where
  "Replace old_token new_token s = concat (map (\<lambda>c. if c = old_token then new_token else [c]) s)"

text \<open>
  The pattern that \<open>UpdateRegex\<close> hands to \<open>std::regex\<close>, statement by statement. The name
  is read as a C string (\<open>name.CStr()\<close>): the strings of the model stand for strings
  without the character 0.
\<close>

definition UpdateRegex_pattern :: "string \<Rightarrow> string" where
  "UpdateRegex_pattern nm =
     (let escaped = regex_replace_special nm;
          escaped = Replace (CHR ''*'') ''.*'' escaped;
          escaped = Replace (CHR ''?'') ''.?'' escaped;
          escaped = Prepend ''^'' escaped;
          escaped = Append ''$'' escaped
      in escaped)"

text \<open>
  The characters with a meaning of their own in the grammar \<open>std::regex\<close> reads by
  default, the \<open>SyntaxCharacter\<close>s of ECMAScript: \<^verbatim>\<open>^ $ \ . * + ? ( ) [ ] { } |\<close>. A
  pattern matches such a character literally only where a backslash precedes it.
\<close>

definition regex_metacharacters :: "char list" where
  "regex_metacharacters =
     [CHR ''^'', CHR ''$'', CHR 0x5C, CHR ''.'', CHR ''*'', CHR ''+'', CHR ''?'',
      CHR ''('', CHR '')'', CHR ''['', CHR '']'', CHR ''{'', CHR ''}'', CHR ''|'']"

text \<open>What the three passes of \<open>UpdateRegex\<close> make of one character of the name.\<close>

definition pattern_of_char :: "char \<Rightarrow> string" where
  "pattern_of_char c =
     (if c \<in> set special_characters then [CHR 0x5C, c]
      else if c = CHR ''*'' then ''.*''
      else if c = CHR ''?'' then ''.?''
      else [c])"

text \<open>
  \<open>UpdateRegex\<close>: the assignment to \<open>regex_for_domain\<close> happens only when the constructor
  of \<open>std::regex\<close> returns; when it throws, the \<open>catch\<close> block returns \<open>false\<close> and the
  field keeps its value.
\<close>

definition UpdateRegex :: "(string \<Rightarrow> bool) \<Rightarrow> Domain \<Rightarrow> bool \<times> Domain" where
  "UpdateRegex throws d =
     (let escaped = UpdateRegex_pattern (name d)
      in if throws escaped then (False, d)
         else (True, d\<lparr>regex_for_domain := regex_of escaped\<rparr>))"

text \<open>The constructor sets \<open>name\<close> and \<open>state\<close>, then calls \<open>UpdateRegex\<close> and drops its result.\<close>

definition Domain_ctor :: "(string \<Rightarrow> bool) \<Rightarrow> string \<Rightarrow> Domain" where
  "Domain_ctor throws nm =
     snd (UpdateRegex throws
            \<lparr> name = nm, regex_for_domain = regex_default,
              domain_stream_map = Map.empty, domain_state = New \<rparr>)"

definition Domain_IsValid :: "Domain \<Rightarrow> bool" where
  "Domain_IsValid d = (domain_state d \<noteq> Unknown)"

text \<open>
  \<open>std::regex_match(candidate, domain.regex_for_domain)\<close>, as the name resolver applies a
  domain's matcher to a host name.
\<close>

definition Domain_matches :: "(string \<Rightarrow> string \<Rightarrow> bool) \<Rightarrow> Domain \<Rightarrow> string \<Rightarrow> bool" where
  "Domain_matches regex_match d candidate =
     (case regex_for_domain d of
        regex_default \<Rightarrow> False
      | regex_of pattern \<Rightarrow> regex_match pattern candidate)"

subsection \<open>\<open>struct Application\<close>\<close>

text \<open>
  \<open>info::Application\<close> is declared outside the header. The coordinator needs the identifier
  and the name of an application; the record has these two getters.
\<close>

record info_Application =
  GetId :: application_id_t
  GetName :: string

record Application =
  orchestrator :: ref
  app_info :: info_Application

subsection \<open>\<open>struct VirtualHost\<close>\<close>

text \<open>
  \<open>info::Host\<close> is not read by the code of the header: it is a type parameter. The
  constructor leaves \<open>name\<close>, the lists and \<open>app_map\<close> default-constructed. \<open>app_map\<close>, a
  \<open>std::map\<close> that owns the applications, is an association list with one entry for a key.
\<close>

record 'h VirtualHost =
  host_info :: 'h
  host_name :: string
  domain_list :: "Domain list"
  origin_list :: "Origin list"
  app_map :: "(application_id_t \<times> Application) list"
  vhost_state :: ItemState

definition VirtualHost_ctor :: "'h \<Rightarrow> 'h VirtualHost" where
  "VirtualHost_ctor info =
     \<lparr> host_info = info, host_name = [], domain_list = [], origin_list = [],
       app_map = [], vhost_state = New \<rparr>"

text \<open>\<open>void MarkAllAs(ItemState state)\<close>.\<close>

definition MarkAllAs1 :: "ItemState \<Rightarrow> 'h VirtualHost \<Rightarrow> 'h VirtualHost" where
  "MarkAllAs1 st vh =
     vh\<lparr> vhost_state := st,
         domain_list := map (\<lambda>d. d\<lparr>domain_state := st\<rparr>) (domain_list vh),
         origin_list := map (\<lambda>origin. origin\<lparr>origin_state := st\<rparr>) (origin_list vh) \<rparr>"

text \<open>
  \<open>bool MarkAllAs(ItemState expected_old_state, ItemState state)\<close>. Each \<open>for\<close> loop is a
  recursion over the list that returns whether the loop ran to its end, and the list as the
  loop left it: an item whose state differs stops the loop, and it and the items behind it
  keep their state.
\<close>

fun mark_domains :: "ItemState \<Rightarrow> ItemState \<Rightarrow> Domain list \<Rightarrow> bool \<times> Domain list" where
  "mark_domains expected st [] = (True, [])"
| "mark_domains expected st (d # ds) =
     (if domain_state d \<noteq> expected then (False, d # ds)
      else (case mark_domains expected st ds of
              (done, ds') \<Rightarrow> (done, d\<lparr>domain_state := st\<rparr> # ds')))"

fun mark_origins :: "ItemState \<Rightarrow> ItemState \<Rightarrow> Origin list \<Rightarrow> bool \<times> Origin list" where
  "mark_origins expected st [] = (True, [])"
| "mark_origins expected st (origin # os) =
     (if origin_state origin \<noteq> expected then (False, origin # os)
      else (case mark_origins expected st os of
              (done, os') \<Rightarrow> (done, origin\<lparr>origin_state := st\<rparr> # os')))"

definition MarkAllAs :: "ItemState \<Rightarrow> ItemState \<Rightarrow> 'h VirtualHost \<Rightarrow> bool \<times> 'h VirtualHost" where
  "MarkAllAs expected st vh =
     (if vhost_state vh \<noteq> expected then (False, vh)
      else
        (let vh1 = vh\<lparr>vhost_state := st\<rparr>
         in case mark_domains expected st (domain_list vh1) of
              (False, ds) \<Rightarrow> (False, vh1\<lparr>domain_list := ds\<rparr>)
            | (True, ds) \<Rightarrow>
                (case mark_origins expected st (origin_list vh1) of
                   (done, os) \<Rightarrow> (done, vh1\<lparr>domain_list := ds, origin_list := os\<rparr>))))"

subsection \<open>The media router's observer callbacks of \<open>struct Application\<close>\<close>

text \<open>
  The three frame callbacks. \<open>\<sigma>\<close> is the state of the program they could change (the
  Orchestrator, its virtual hosts and every Application); the stream and the packet are
  shared pointers. Each body is \<open>return true\<close>.
\<close>

definition OnSendVideoFrame :: "Application \<Rightarrow> ref \<Rightarrow> ref \<Rightarrow> '\<sigma> \<Rightarrow> bool \<times> '\<sigma>" where
  "OnSendVideoFrame this stream media_packet \<sigma> = (True, \<sigma>)"

definition OnSendAudioFrame :: "Application \<Rightarrow> ref \<Rightarrow> ref \<Rightarrow> '\<sigma> \<Rightarrow> bool \<times> '\<sigma>" where
  "OnSendAudioFrame this stream media_packet \<sigma> = (True, \<sigma>)"

definition OnSendFrame :: "Application \<Rightarrow> ref \<Rightarrow> ref \<Rightarrow> '\<sigma> \<Rightarrow> bool \<times> '\<sigma>" where
  "OnSendFrame this info packet \<sigma> = (True, \<sigma>)"

subsection \<open>The overloads of \<open>RequestPullStream\<close>\<close>

text \<open>
  \<open>off_t\<close> is a 64-bit integer. The two overloads that take an offset are declared in the
  header and defined elsewhere: they are the first argument of the two inline overloads,
  a function from the program state \<open>\<sigma>\<close> to the result and the new state.
\<close>

type_synonym off_t = "64 word"

definition RequestPullStream_url ::
  "(string \<Rightarrow> string \<Rightarrow> string \<Rightarrow> off_t \<Rightarrow> '\<sigma> \<Rightarrow> bool \<times> '\<sigma>) \<Rightarrow>
   string \<Rightarrow> string \<Rightarrow> string \<Rightarrow> '\<sigma> \<Rightarrow> bool \<times> '\<sigma>" where
  "RequestPullStream_url RequestPullStream_url_offset vhost_app_name stream_name url =
     RequestPullStream_url_offset vhost_app_name stream_name url 0"

definition RequestPullStream_location ::
  "(string \<Rightarrow> string \<Rightarrow> off_t \<Rightarrow> '\<sigma> \<Rightarrow> bool \<times> '\<sigma>) \<Rightarrow>
   string \<Rightarrow> string \<Rightarrow> '\<sigma> \<Rightarrow> bool \<times> '\<sigma>" where
  "RequestPullStream_location RequestPullStream_location_offset vhost_app_name stream_name =
     RequestPullStream_location_offset vhost_app_name stream_name 0"

text \<open>
  A provider that records the pull requests it receives, to run the overloads on: the
  state is the list of requests, and the overload with an offset hands its arguments over.
\<close>

definition recording_pull ::
  "string \<Rightarrow> string \<Rightarrow> string \<Rightarrow> off_t \<Rightarrow>
   (string \<times> string \<times> string \<times> off_t) list \<Rightarrow> bool \<times> (string \<times> string \<times> string \<times> off_t) list" where
  "recording_pull vhost_app_name stream_name url offset received =
     (True, received @ [(vhost_app_name, stream_name, url, offset)])"

section \<open>The module registry\<close>

text \<open>
  \<open>struct Module\<close> and the two registry members of the Orchestrator: \<open>_module_list\<close>, a
  vector in registration order, and \<open>_module_map\<close>, the modules of each kind. A
  \<open>std::map\<close> of vectors read with \<open>operator[]\<close> is a function whose default is the
  empty vector.
\<close>

record Module =
  type :: OrchestratorModuleType
  module :: ref

record Registry =
  module_list :: "Module list"
  module_map :: "OrchestratorModuleType \<Rightarrow> ref list"

definition empty_registry :: Registry where
  "empty_registry = \<lparr> module_list = [], module_map = (\<lambda>kind. []) \<rparr>"

definition registered :: "Registry \<Rightarrow> ref \<Rightarrow> bool" where
  "registered r m = (m \<in> set (map module (module_list r)))"

definition modules_of :: "Registry \<Rightarrow> ref set" where
  "modules_of r = set (map module (module_list r))"

text \<open>
  Modelled from the spec: the body of \<open>RegisterModule\<close>, which the header only declares.
  Section 4.1: \<open>Register\<close> inserts if absent and rejects a reference that is already
  present; it updates the flat list, preserving insertion order, and the per-kind
  grouping. The header's comment: false is returned if the module is registered or passed
  a different type from the previously registered type. The kind is the one the module
  reports when it is registered.
\<close>

definition RegisterModule :: "OrchestratorModuleType \<Rightarrow> ref \<Rightarrow> Registry \<Rightarrow> bool \<times> Registry" where
  "RegisterModule kind m r =
     (if registered r m then (False, r)
      else (True, r\<lparr> module_list := push_back (module_list r) \<lparr> type = kind, module = m \<rparr>,
                     module_map := (module_map r)(kind := push_back (module_map r kind) m) \<rparr>))"

text \<open>
  Modelled from the spec: the body of \<open>UnregisterModule\<close>, which the header only declares.
  Section 4.1: \<open>Unregister\<close> removes from both indexes and returns false if not found.
\<close>

definition UnregisterModule :: "ref \<Rightarrow> Registry \<Rightarrow> bool \<times> Registry" where
  "UnregisterModule m r =
     (if \<not> registered r m then (False, r)
      else (True, r\<lparr> module_list := filter (\<lambda>info. module info \<noteq> m) (module_list r),
                     module_map := (\<lambda>kind. filter (\<lambda>m'. m' \<noteq> m) (module_map r kind)) \<rparr>))"

text \<open>Modelled from the spec: \<open>ModulesOfKind\<close> of section 4.1, the ordered sequence of a kind.\<close>

definition ModulesOfKind :: "OrchestratorModuleType \<Rightarrow> Registry \<Rightarrow> ref list" where
  "ModulesOfKind kind r = module_map r kind"

text \<open>
  A sequence of registry calls, run from a registry on, with the value each call returns;
  and the set of modules that the same calls leave when they are read as set operations.
\<close>

datatype registry_call = Register OrchestratorModuleType ref | Unregister ref

fun registry_step :: "registry_call \<Rightarrow> Registry \<Rightarrow> bool \<times> Registry" where
  "registry_step (Register kind m) r = RegisterModule kind m r"
| "registry_step (Unregister m) r = UnregisterModule m r"

fun run_registry :: "registry_call list \<Rightarrow> Registry \<Rightarrow> bool list \<times> Registry" where
  "run_registry [] r = ([], r)"
| "run_registry (c # cs) r =
     (case registry_step c r of
        (b, r') \<Rightarrow> (case run_registry cs r' of (bs, r'') \<Rightarrow> (b # bs, r'')))"

fun set_difference :: "registry_call list \<Rightarrow> ref set \<Rightarrow> ref set" where
  "set_difference [] S = S"
| "set_difference (Register kind m # cs) S = set_difference cs (insert m S)"
| "set_difference (Unregister m # cs) S = set_difference cs (S - {m})"

text \<open>
  The values the calls return on a set: registering succeeds for a module outside the set,
  unregistering for a module in it.
\<close>

fun set_returns :: "registry_call list \<Rightarrow> ref set \<Rightarrow> bool list" where
  "set_returns [] S = []"
| "set_returns (Register kind m # cs) S = (m \<notin> S) # set_returns cs (insert m S)"
| "set_returns (Unregister m # cs) S = (m \<in> S) # set_returns cs (S - {m})"

definition registry_inv :: "Registry \<Rightarrow> bool" where
  "registry_inv r =
     (distinct (map module (module_list r)) \<and>
      list_all (\<lambda>kind. module_map r kind =
                  map module (filter (\<lambda>info. type info = kind) (module_list r)))
        [UnknownModule, ProviderModule, MediaRouterModule, TranscoderModule, PublisherModule])"

section \<open>The name resolver\<close>

text \<open>
  Modelled from the spec: the body of \<open>ResolveApplicationName\<close>, which the header only
  declares. Section 4.4: the canonical application name is \<^verbatim>\<open><vhost>#<app>\<close>, and
  \<open>ResolveApplicationName(vhost, app)\<close> is the canonical form.
\<close>

definition ResolveApplicationName :: "string \<Rightarrow> string \<Rightarrow> string" where
  "ResolveApplicationName vhost_name app_name = vhost_name @ ''#'' @ app_name"

text \<open>
  Modelled from the spec: the body of \<open>ParseVHostAppName\<close>, which the header only declares.
  Section 4.4: it splits on the first \<^verbatim>\<open>#\<close>, and malformed input (a name without
  \<^verbatim>\<open>#\<close>) is an error. The header's \<open>bool\<close> with two output parameters is an option:
  \<open>None\<close> is \<open>false\<close>, \<open>Some (vhost_name, real_app_name)\<close> is \<open>true\<close> with both outputs.
\<close>

definition ParseVHostAppName :: "string \<Rightarrow> (string \<times> string) option" where
  "ParseVHostAppName vhost_app_name =
     (if CHR ''#'' \<in> set vhost_app_name
      then Some (takeWhile (\<lambda>c. c \<noteq> CHR ''#'') vhost_app_name,
                 tl (dropWhile (\<lambda>c. c \<noteq> CHR ''#'') vhost_app_name))
      else None)"

section \<open>The application coordinator\<close>

text \<open>
  The modules are outside the Orchestrator. What they are asked is recorded as a list of
  calls, each with the module's answer; the calls made so far are all a module's answer can
  depend on, so \<open>OnCreateApplication\<close> and \<open>OnDeleteApplication\<close> of the module interface
  are functions of the calls so far, the module and the application.
\<close>

datatype module_call =
    OnCreateApplication ref info_Application bool
  | OnDeleteApplication ref info_Application bool
  | RegisterObserverApp info_Application

type_synonym module_answer = "module_call list \<Rightarrow> ref \<Rightarrow> info_Application \<Rightarrow> bool"

record cfg_Application =
  cfg_GetName :: string

record Coordinator =
  registry :: Registry
  last_application_id :: application_id_t
  calls :: "module_call list"

text \<open>
  Modelled from the spec: \<open>GetNextAppId\<close>, declared in the header. Section 3: the
  identifier comes from a monotonically increasing counter.
\<close>

definition GetNextAppId :: "Coordinator \<Rightarrow> application_id_t \<times> Coordinator" where
  "GetNextAppId st = (last_application_id st, st\<lparr>last_application_id := last_application_id st + 1\<rparr>)"

text \<open>
  Modelled from the spec: the order of the create fan-out, section 4.5 step 3: the
  MediaRouter first, then all Providers, then the Transcoder, then all Publishers, each
  kind in registration order.
\<close>

definition fan_out_order :: "Registry \<Rightarrow> ref list" where
  "fan_out_order r =
     ModulesOfKind MediaRouterModule r @ ModulesOfKind ProviderModule r @
     ModulesOfKind TranscoderModule r @ ModulesOfKind PublisherModule r"

text \<open>
  Modelled from the spec: the create fan-out of section 4.5, steps 3 and 4. It calls
  \<open>OnCreateApplication\<close> module by module, stops at the first module that returns failure
  and keeps the list of the modules that created.
\<close>

fun create_fan_out ::
  "module_answer \<Rightarrow> info_Application \<Rightarrow> ref list \<Rightarrow> ref list \<Rightarrow> module_call list \<Rightarrow>
   bool \<times> ref list \<times> module_call list" where
  "create_fan_out on_create info [] created log = (True, created, log)"
| "create_fan_out on_create info (m # ms) created log =
     (if on_create log m info
      then create_fan_out on_create info ms (push_back created m)
             (push_back log (OnCreateApplication m info True))
      else (False, created, push_back log (OnCreateApplication m info False)))"

text \<open>
  Modelled from the spec: the compensating rollback of section 4.5, step 4. It calls
  \<open>OnDeleteApplication\<close> on each module of the list it is given, whatever the answers.
\<close>

fun delete_fan_out ::
  "module_answer \<Rightarrow> info_Application \<Rightarrow> ref list \<Rightarrow> module_call list \<Rightarrow> module_call list" where
  "delete_fan_out on_delete info [] log = log"
| "delete_fan_out on_delete info (m # ms) log =
     delete_fan_out on_delete info ms
       (push_back log (OnDeleteApplication m info (on_delete log m info)))"

text \<open>\<open>std::map::emplace\<close>: a key that is present keeps its entry.\<close>

definition emplace :: "'k \<Rightarrow> 'v \<Rightarrow> ('k \<times> 'v) list \<Rightarrow> ('k \<times> 'v) list" where
  "emplace k v m = (if k \<in> set (map fst m) then m else push_back m (k, v))"

text \<open>
  Modelled from the spec: the \<open>info::Application\<close> of section 4.5, step 2, with the fresh
  identifier and the name of the configuration.
\<close>

definition new_app_info :: "Coordinator \<Rightarrow> cfg_Application \<Rightarrow> info_Application" where
  "new_app_info st app_config =
     \<lparr> GetId = fst (GetNextAppId st), GetName = cfg_GetName app_config \<rparr>"

text \<open>
  Modelled from the spec: the body of \<open>CreateApplication\<close>, which the header only declares,
  by the five steps of section 4.5: \<open>Exists\<close> for a name the virtual host already has; a
  fresh identifier; the create fan-out; on a failure the rollback over the modules that
  created, in reverse order, and \<open>Failed\<close>; on full success the observer registration, the
  insertion into \<open>app_map\<close>, and \<open>Succeeded\<close>. The virtual host is the one that owns the
  application; it is returned with the state of the coordinator.
\<close>

definition CreateApplication ::
  "module_answer \<Rightarrow> module_answer \<Rightarrow> 'h VirtualHost \<Rightarrow> cfg_Application \<Rightarrow> Coordinator \<Rightarrow>
   Result \<times> 'h VirtualHost \<times> Coordinator" where
  "CreateApplication on_create on_delete vhost app_config st =
     (if list_ex (\<lambda>entry. GetName (app_info (snd entry)) = cfg_GetName app_config) (app_map vhost)
      then (Exists, vhost, st)
      else
        (let info = new_app_info st app_config;
             st1 = snd (GetNextAppId st)
         in case create_fan_out on_create info (fan_out_order (registry st1)) [] (calls st1) of
              (False, created, log) \<Rightarrow>
                (Failed, vhost, st1\<lparr>calls := delete_fan_out on_delete info (rev created) log\<rparr>)
            | (True, created, log) \<Rightarrow>
                (Succeeded,
                 vhost\<lparr>app_map := emplace (GetId info) \<lparr> orchestrator = 0, app_info = info \<rparr>
                                     (app_map vhost)\<rparr>,
                 st1\<lparr>calls := push_back log (RegisterObserverApp info)\<rparr>)))"

text \<open>
  What the calls say about an application: the modules that hold it (a module holds the
  application from the \<open>OnCreateApplication\<close> it answered with true to the next
  \<open>OnDeleteApplication\<close> it is sent), and the modules that created and that were asked to
  delete, in the order of the calls.
\<close>

fun hold_step :: "info_Application \<Rightarrow> module_call \<Rightarrow> ref set \<Rightarrow> ref set" where
  "hold_step info (OnCreateApplication m a ok) H = (if a = info \<and> ok then insert m H else H)"
| "hold_step info (OnDeleteApplication m a ok) H = (if a = info then H - {m} else H)"
| "hold_step info (RegisterObserverApp a) H = H"

definition holders :: "info_Application \<Rightarrow> module_call list \<Rightarrow> ref set" where
  "holders info log = fold (hold_step info) log {}"

fun created_modules :: "info_Application \<Rightarrow> module_call list \<Rightarrow> ref list" where
  "created_modules info [] = []"
| "created_modules info (OnCreateApplication m a ok # cs) =
     (if a = info \<and> ok then m # created_modules info cs else created_modules info cs)"
| "created_modules info (c # cs) = created_modules info cs"

fun deleted_modules :: "info_Application \<Rightarrow> module_call list \<Rightarrow> ref list" where
  "deleted_modules info [] = []"
| "deleted_modules info (OnDeleteApplication m a ok # cs) =
     (if a = info then m # deleted_modules info cs else deleted_modules info cs)"
| "deleted_modules info (c # cs) = deleted_modules info cs"

section \<open>Scenarios\<close>

text \<open>
  Values to run the definitions on. A virtual host whose items are all \<open>Applied\<close>, and
  one whose second domain is \<open>New\<close>.
\<close>

definition domain_in :: "string \<Rightarrow> ItemState \<Rightarrow> Domain" where
  "domain_in nm st =
     \<lparr> name = nm, regex_for_domain = regex_of (UpdateRegex_pattern nm),
       domain_stream_map = Map.empty, domain_state = st \<rparr>"

definition origin_in :: "string \<Rightarrow> ItemState \<Rightarrow> Origin" where
  "origin_in loc st =
     (Origin_ctor \<lparr> GetLocation = loc,
                   GetPass = \<lparr> GetScheme = ''rtmp'',
                               GetUrlList = [\<lparr> GetUrl = ''src/app'' \<rparr>] \<rparr> \<rparr>)
       \<lparr> origin_state := st \<rparr>"

definition vhost_applied :: "unit VirtualHost" where
  "vhost_applied =
     \<lparr> host_info = (), host_name = ''h1'',
       domain_list = [domain_in ''*.example.com'' Applied, domain_in ''example.org'' Applied],
       origin_list = [origin_in ''/live'' Applied],
       app_map = [], vhost_state = Applied \<rparr>"

definition vhost_mixed :: "unit VirtualHost" where
  "vhost_mixed =
     \<lparr> host_info = (), host_name = ''h1'',
       domain_list = [domain_in ''*.example.com'' Applied, domain_in ''example.org'' New],
       origin_list = [origin_in ''/live'' Applied],
       app_map = [], vhost_state = Applied \<rparr>"

text \<open>A \<open>std::regex\<close> constructor that rejects the pattern with an unmatched parenthesis.\<close>

definition throws_on_paren :: "string \<Rightarrow> bool" where
  "throws_on_paren pattern = (pattern = ''^($'')"

text \<open>
  Scenario S3 of the specification: a MediaRouter (module 1) and two Publishers (modules 2
  and 3) are registered; the second Publisher's \<open>OnCreateApplication\<close> returns false.
\<close>

definition s3_registry :: Registry where
  "s3_registry =
     snd (run_registry
            [Register MediaRouterModule 1, Register PublisherModule 2, Register PublisherModule 3]
            empty_registry)"

definition s3_on_create :: module_answer where
  "s3_on_create log m info = (m \<noteq> 3)"

definition s3_on_delete :: module_answer where
  "s3_on_delete log m info = True"

definition s3_coordinator :: Coordinator where
  "s3_coordinator = \<lparr> registry = s3_registry, last_application_id = 1, calls = [] \<rparr>"

definition s3_vhost :: "unit VirtualHost" where
  "s3_vhost = (VirtualHost_ctor ()) \<lparr> host_name := ''h1'' \<rparr>"

definition s3_app :: info_Application where
  "s3_app = \<lparr> GetId = 1, GetName = ''live'' \<rparr>"

section \<open>The \<open>Origin\<close> constructor\<close>

lemma Origin_url_loop_eq: "Origin_url_loop sch items urls = urls @ map GetUrl items"
  by (induction items arbitrary: urls) (simp_all add: push_back_def Let_def)

text \<open>
  C2. For every origin configuration, the \<open>Origin\<close> constructor stores in \<open>url_list\<close>
  exactly the URLs of the configuration's Pass URL list, in order and unchanged: the copy
  with the scheme prepended is dropped at the end of each round of the loop, and the scheme
  is kept apart, in the field \<open>scheme\<close>.
\<close>

theorem Origin_ctor_stores_raw_urls:
  "url_list (Origin_ctor config) = map GetUrl (GetUrlList (GetPass config)) \<and>
   scheme (Origin_ctor config) = GetScheme (GetPass config)"
  by (simp add: Origin_ctor_def Origin_url_loop_eq)

section \<open>Construction states\<close>

text \<open>
  C10. Every \<open>Origin\<close>, \<open>Domain\<close> and \<open>VirtualHost\<close> is constructed with the state \<open>New\<close>,
  whatever \<open>std::regex\<close> makes of the domain's pattern; \<open>New\<close> differs from \<open>Unknown\<close>, so
  \<open>IsValid()\<close> is true of every constructed \<open>Origin\<close> and \<open>Domain\<close>.
\<close>

theorem constructed_with_state_New:
  "origin_state (Origin_ctor config) = New \<and>
   domain_state (Domain_ctor throws nm) = New \<and>
   vhost_state (VirtualHost_ctor info) = New \<and>
   New \<noteq> Unknown \<and>
   Origin_IsValid (Origin_ctor config) \<and>
   Domain_IsValid (Domain_ctor throws nm)"
  by (simp add: Origin_ctor_def Domain_ctor_def VirtualHost_ctor_def UpdateRegex_def
      Origin_IsValid_def Domain_IsValid_def Let_def)

section \<open>The pattern of a domain\<close>

lemma Replace_append: "Replace c new (xs @ ys) = Replace c new xs @ Replace c new ys"
  by (simp add: Replace_def)

text \<open>
  The three passes over the name amount to one pass that translates each character by
  \<open>pattern_of_char\<close>: the escape pass adds backslashes only, so the \<^verbatim>\<open>*\<close> and \<^verbatim>\<open>?\<close> the
  later passes find are those of the name.
\<close>

lemma UpdateRegex_pattern_chars:
  "UpdateRegex_pattern nm = ''^'' @ concat (map pattern_of_char nm) @ ''$''"
proof -
  have "Replace (CHR ''?'') ''.?'' (Replace (CHR ''*'') ''.*'' (regex_replace_special nm)) =
        concat (map pattern_of_char nm)"
  proof (induction nm)
    case Nil
    show ?case by (simp add: Replace_def regex_replace_special_def)
  next
    case (Cons c nm)
    have "regex_replace_special (c # nm) =
          (if c \<in> set special_characters then [CHR 0x5C, c] else [c]) @ regex_replace_special nm"
      by (simp add: regex_replace_special_def)
    moreover have "Replace (CHR ''?'') ''.?'' (Replace (CHR ''*'') ''.*''
                     (if c \<in> set special_characters then [CHR 0x5C, c] else [c])) = pattern_of_char c"
      by (simp add: Replace_def pattern_of_char_def special_characters_def)
    ultimately show ?case using Cons.IH by (simp only: Replace_append) simp
  qed
  then show ?thesis by (simp add: UpdateRegex_pattern_def Prepend_def Append_def Let_def)
qed

text \<open>
  C3. The claim is that \<open>UpdateRegex\<close> escapes every regex metacharacter of the name
  before it replaces \<^verbatim>\<open>*\<close> and \<^verbatim>\<open>?\<close> and anchors the result. The parenthesis is a
  metacharacter outside the class of \<open>special_characters\<close>: the name \<^verbatim>\<open>(a)\<close> gives the
  pattern \<^verbatim>\<open>^(a)$\<close>, in which the parentheses are a group, where the dot of \<^verbatim>\<open>a.b\<close> is
  escaped.
\<close>

theorem UpdateRegex_leaves_parenthesis:
  "UpdateRegex_pattern ''(a)'' = ''^(a)$'' \<and>
   CHR ''('' \<in> set regex_metacharacters \<and> CHR ''('' \<notin> set special_characters \<and>
   UpdateRegex_pattern ''a.b'' = [CHR ''^'', CHR ''a'', CHR 0x5C, CHR ''.'', CHR ''b'', CHR ''$'']"
  by (simp add: UpdateRegex_pattern_chars pattern_of_char_def special_characters_def
      regex_metacharacters_def)

text \<open>
  C6. When \<open>std::regex\<close> rejects the pattern compiled from a domain's name, \<open>UpdateRegex\<close>
  returns false and leaves the domain as it was; the constructor still yields a domain,
  with the name, the state \<open>New\<close> and the default-constructed matcher, and that domain
  matches no candidate, whatever the matching of compiled patterns is.
\<close>

theorem UpdateRegex_invalid_pattern:
  assumes "throws (UpdateRegex_pattern (name d))"
  shows "UpdateRegex throws d = (False, d) \<and>
         Domain_ctor throws (name d) =
           \<lparr> name = name d, regex_for_domain = regex_default,
             domain_stream_map = Map.empty, domain_state = New \<rparr> \<and>
         \<not> Domain_matches regex_match (Domain_ctor throws (name d)) candidate"
  using assms by (simp add: UpdateRegex_def Domain_ctor_def Domain_matches_def Let_def)

theorem UpdateRegex_invalid_pattern_witness:
  "throws_on_paren (UpdateRegex_pattern (name (domain_in ''('' Applied))) \<and>
   UpdateRegex throws_on_paren (domain_in ''('' Applied) = (False, domain_in ''('' Applied) \<and>
   regex_for_domain (Domain_ctor throws_on_paren ''('') = regex_default \<and>
   \<not> Domain_matches (\<lambda>pattern candidate. True) (Domain_ctor throws_on_paren ''('') ''(''"
proof -
  have nm: "name (domain_in ''('' Applied) = ''(''" by (simp add: domain_in_def)
  have h: "throws_on_paren (UpdateRegex_pattern (name (domain_in ''('' Applied)))"
    by (simp add: nm UpdateRegex_pattern_chars pattern_of_char_def special_characters_def
        throws_on_paren_def)
  note th = UpdateRegex_invalid_pattern
         [of throws_on_paren "domain_in ''('' Applied" "\<lambda>pattern candidate. True" "''(''",
          OF h, unfolded nm]
  from th have c1: "UpdateRegex throws_on_paren (domain_in ''('' Applied) =
      (False, domain_in ''('' Applied)" by blast
  from th have "Domain_ctor throws_on_paren ''('' =
      \<lparr> name = ''('', regex_for_domain = regex_default,
        domain_stream_map = Map.empty, domain_state = New \<rparr>" by blast
  then have c2: "regex_for_domain (Domain_ctor throws_on_paren ''('') = regex_default" by simp
  from th have c3: "\<not> Domain_matches (\<lambda>pattern candidate. True)
      (Domain_ctor throws_on_paren ''('') ''(''" by blast
  from h c1 c2 c3 show ?thesis by blast
qed

section \<open>\<open>MarkAllAs\<close> with an expected state\<close>

lemma mark_domains_eq:
  "mark_domains e s ds =
     (list_all (\<lambda>d. domain_state d = e) ds,
      map (\<lambda>d. d\<lparr>domain_state := s\<rparr>) (takeWhile (\<lambda>d. domain_state d = e) ds) @
      dropWhile (\<lambda>d. domain_state d = e) ds)"
  by (induction ds) auto

lemma mark_origins_eq:
  "mark_origins e s os =
     (list_all (\<lambda>origin. origin_state origin = e) os,
      map (\<lambda>origin. origin\<lparr>origin_state := s\<rparr>)
        (takeWhile (\<lambda>origin. origin_state origin = e) os) @
      dropWhile (\<lambda>origin. origin_state origin = e) os)"
  by (induction os) auto

lemma takeWhile_all: "list_all P xs \<Longrightarrow> takeWhile P xs = xs \<and> dropWhile P xs = []"
  by (induction xs) auto

lemma MarkAllAs_fst:
  "fst (MarkAllAs e s vh) \<longleftrightarrow>
     (vhost_state vh = e \<and> list_all (\<lambda>d. domain_state d = e) (domain_list vh) \<and>
      list_all (\<lambda>origin. origin_state origin = e) (origin_list vh))"
  by (auto simp add: MarkAllAs_def Let_def mark_domains_eq mark_origins_eq
      split: prod.splits bool.splits)

lemma MarkAllAs_true:
  "fst (MarkAllAs e s vh) \<Longrightarrow> snd (MarkAllAs e s vh) = MarkAllAs1 s vh"
  by (auto simp add: MarkAllAs_def MarkAllAs1_def Let_def mark_domains_eq mark_origins_eq
      takeWhile_all split: prod.splits bool.splits)

lemma MarkAllAs_host_differs: "vhost_state vh \<noteq> e \<Longrightarrow> MarkAllAs e s vh = (False, vh)"
  by (simp add: MarkAllAs_def)

lemma MarkAllAs_snd:
  "vhost_state vh = e \<Longrightarrow>
   snd (MarkAllAs e s vh) =
     vh\<lparr> vhost_state := s,
         domain_list :=
           map (\<lambda>d. d\<lparr>domain_state := s\<rparr>)
             (takeWhile (\<lambda>d. domain_state d = e) (domain_list vh)) @
           dropWhile (\<lambda>d. domain_state d = e) (domain_list vh),
         origin_list :=
           (if list_all (\<lambda>d. domain_state d = e) (domain_list vh)
            then map (\<lambda>origin. origin\<lparr>origin_state := s\<rparr>)
                   (takeWhile (\<lambda>origin. origin_state origin = e) (origin_list vh)) @
                 dropWhile (\<lambda>origin. origin_state origin = e) (origin_list vh)
            else origin_list vh) \<rparr>"
  by (auto simp add: MarkAllAs_def Let_def mark_domains_eq mark_origins_eq
      split: prod.splits bool.splits)

text \<open>
  C9. \<open>MarkAllAs(expected_old_state, state)\<close> returns true exactly when the virtual host,
  every domain and every origin are in the expected state. When it returns true every one
  of them is in the new state afterwards (the result is that of the one-argument
  \<open>MarkAllAs\<close>). When the host's own state differs, nothing changes. When the host's check
  passes, the host is set to the new state, and so are the domains before the first one
  whose state differs, while that domain and the items behind it keep theirs; the origins
  are reached only when every domain passed, and are treated alike. So a false return
  after the host's check passed, with a new state other than the expected one, leaves a
  changed tree.
\<close>

theorem MarkAllAs_expected:
  "(fst (MarkAllAs e s vh) \<longleftrightarrow>
      (vhost_state vh = e \<and> (\<forall>d \<in> set (domain_list vh). domain_state d = e) \<and>
       (\<forall>origin \<in> set (origin_list vh). origin_state origin = e))) \<and>
   (fst (MarkAllAs e s vh) \<longrightarrow>
      snd (MarkAllAs e s vh) = MarkAllAs1 s vh \<and>
      vhost_state (snd (MarkAllAs e s vh)) = s \<and>
      (\<forall>d \<in> set (domain_list (snd (MarkAllAs e s vh))). domain_state d = s) \<and>
      (\<forall>origin \<in> set (origin_list (snd (MarkAllAs e s vh))). origin_state origin = s)) \<and>
   (vhost_state vh \<noteq> e \<longrightarrow> MarkAllAs e s vh = (False, vh)) \<and>
   (vhost_state vh = e \<longrightarrow>
      snd (MarkAllAs e s vh) =
        vh\<lparr> vhost_state := s,
            domain_list :=
              map (\<lambda>d. d\<lparr>domain_state := s\<rparr>)
                (takeWhile (\<lambda>d. domain_state d = e) (domain_list vh)) @
              dropWhile (\<lambda>d. domain_state d = e) (domain_list vh),
            origin_list :=
              (if \<forall>d \<in> set (domain_list vh). domain_state d = e
               then map (\<lambda>origin. origin\<lparr>origin_state := s\<rparr>)
                      (takeWhile (\<lambda>origin. origin_state origin = e) (origin_list vh)) @
                    dropWhile (\<lambda>origin. origin_state origin = e) (origin_list vh)
               else origin_list vh) \<rparr>) \<and>
   (vhost_state vh = e \<and> e \<noteq> s \<and> \<not> fst (MarkAllAs e s vh) \<longrightarrow>
      snd (MarkAllAs e s vh) \<noteq> vh)"
proof (intro conjI impI)
  show "fst (MarkAllAs e s vh) \<longleftrightarrow>
      (vhost_state vh = e \<and> (\<forall>d \<in> set (domain_list vh). domain_state d = e) \<and>
       (\<forall>origin \<in> set (origin_list vh). origin_state origin = e))"
    by (simp add: MarkAllAs_fst list_all_iff)
next
  assume t: "fst (MarkAllAs e s vh)"
  show eq: "snd (MarkAllAs e s vh) = MarkAllAs1 s vh" by (rule MarkAllAs_true [OF t])
  show "vhost_state (snd (MarkAllAs e s vh)) = s" by (simp add: eq MarkAllAs1_def)
  show "\<forall>d \<in> set (domain_list (snd (MarkAllAs e s vh))). domain_state d = s"
    by (auto simp add: eq MarkAllAs1_def)
  show "\<forall>origin \<in> set (origin_list (snd (MarkAllAs e s vh))). origin_state origin = s"
    by (auto simp add: eq MarkAllAs1_def)
next
  assume "vhost_state vh \<noteq> e"
  then show "MarkAllAs e s vh = (False, vh)" by (rule MarkAllAs_host_differs)
next
  assume "vhost_state vh = e"
  then show "snd (MarkAllAs e s vh) =
        vh\<lparr> vhost_state := s,
            domain_list :=
              map (\<lambda>d. d\<lparr>domain_state := s\<rparr>)
                (takeWhile (\<lambda>d. domain_state d = e) (domain_list vh)) @
              dropWhile (\<lambda>d. domain_state d = e) (domain_list vh),
            origin_list :=
              (if \<forall>d \<in> set (domain_list vh). domain_state d = e
               then map (\<lambda>origin. origin\<lparr>origin_state := s\<rparr>)
                      (takeWhile (\<lambda>origin. origin_state origin = e) (origin_list vh)) @
                    dropWhile (\<lambda>origin. origin_state origin = e) (origin_list vh)
               else origin_list vh) \<rparr>"
    by (simp add: MarkAllAs_snd list_all_iff)
next
  assume a: "vhost_state vh = e \<and> e \<noteq> s \<and> \<not> fst (MarkAllAs e s vh)"
  then have "vhost_state (snd (MarkAllAs e s vh)) = s" by (simp add: MarkAllAs_snd)
  with a show "snd (MarkAllAs e s vh) \<noteq> vh" by auto
qed

theorem MarkAllAs_expected_witness:
  "fst (MarkAllAs Applied NeedToCheck vhost_applied) \<and>
   snd (MarkAllAs Applied NeedToCheck vhost_applied) = MarkAllAs1 NeedToCheck vhost_applied \<and>
   \<not> fst (MarkAllAs Applied NeedToCheck vhost_mixed) \<and>
   snd (MarkAllAs Applied NeedToCheck vhost_mixed) \<noteq> vhost_mixed \<and>
   map domain_state (domain_list (snd (MarkAllAs Applied NeedToCheck vhost_mixed))) =
     [NeedToCheck, New] \<and>
   map origin_state (origin_list (snd (MarkAllAs Applied NeedToCheck vhost_mixed))) = [Applied] \<and>
   MarkAllAs New Applied vhost_mixed = (False, vhost_mixed)"
proof -
  have a: "vhost_state vhost_applied = Applied \<and>
      (\<forall>d \<in> set (domain_list vhost_applied). domain_state d = Applied) \<and>
      (\<forall>origin \<in> set (origin_list vhost_applied). origin_state origin = Applied)"
    by (simp add: vhost_applied_def domain_in_def origin_in_def)
  have m: "vhost_state vhost_mixed = Applied \<and>
      \<not> (\<forall>d \<in> set (domain_list vhost_mixed). domain_state d = Applied)"
    by (simp add: vhost_mixed_def domain_in_def)
  have ne: "vhost_state vhost_mixed \<noteq> New" by (simp add: vhost_mixed_def)
  have t: "fst (MarkAllAs Applied NeedToCheck vhost_applied)"
    using MarkAllAs_expected [of Applied NeedToCheck vhost_applied] a by blast
  have eq: "snd (MarkAllAs Applied NeedToCheck vhost_applied) = MarkAllAs1 NeedToCheck vhost_applied"
    using MarkAllAs_expected [of Applied NeedToCheck vhost_applied] t by blast
  have f: "\<not> fst (MarkAllAs Applied NeedToCheck vhost_mixed)"
    using MarkAllAs_expected [of Applied NeedToCheck vhost_mixed] m by blast
  have ne2: "Applied \<noteq> NeedToCheck" by simp
  have changed: "snd (MarkAllAs Applied NeedToCheck vhost_mixed) \<noteq> vhost_mixed"
    using MarkAllAs_expected [of Applied NeedToCheck vhost_mixed] m f ne2 by blast
  have snd: "snd (MarkAllAs Applied NeedToCheck vhost_mixed) =
      vhost_mixed\<lparr> vhost_state := NeedToCheck,
        domain_list := [domain_in ''*.example.com'' NeedToCheck, domain_in ''example.org'' New] \<rparr>"
    using MarkAllAs_expected [of Applied NeedToCheck vhost_mixed] m
    by (simp add: vhost_mixed_def domain_in_def)
  have unchanged: "MarkAllAs New Applied vhost_mixed = (False, vhost_mixed)"
    using MarkAllAs_expected [of New Applied vhost_mixed] ne by blast
  show ?thesis using t eq f changed unchanged
    by (simp add: snd) (simp add: vhost_mixed_def domain_in_def origin_in_def)
qed

section \<open>Pull requests without an offset, and the frame callbacks\<close>

text \<open>
  C7. Each overload of \<open>RequestPullStream\<close> without an offset returns what the overload
  with an offset returns for the offset 0, and leaves the state that one leaves, whatever
  the overload with an offset does; run on the recording provider, the request that
  arrives carries the offset 0.
\<close>

theorem RequestPullStream_without_offset:
  "RequestPullStream_url with_offset vhost_app_name stream_name url \<sigma> =
     with_offset vhost_app_name stream_name url 0 \<sigma> \<and>
   RequestPullStream_location with_offset' vhost_app_name stream_name \<sigma>' =
     with_offset' vhost_app_name stream_name 0 \<sigma>' \<and>
   RequestPullStream_url recording_pull vhost_app_name stream_name url received =
     (True, received @ [(vhost_app_name, stream_name, url, 0)])"
  by (simp add: RequestPullStream_url_def RequestPullStream_location_def recording_pull_def)

text \<open>
  C8. For every stream and media packet, \<open>OnSendVideoFrame\<close>, \<open>OnSendAudioFrame\<close> and
  \<open>OnSendFrame\<close> return true and leave the state of the program as it was.
\<close>

theorem frame_callbacks_ignore:
  "OnSendVideoFrame this stream media_packet \<sigma> = (True, \<sigma>) \<and>
   OnSendAudioFrame this stream media_packet \<sigma> = (True, \<sigma>) \<and>
   OnSendFrame this stream media_packet \<sigma> = (True, \<sigma>)"
  by (simp add: OnSendVideoFrame_def OnSendAudioFrame_def OnSendFrame_def)

section \<open>Canonical application names\<close>

lemma takeWhile_dropWhile_sep:
  "c \<notin> set v \<Longrightarrow>
   takeWhile (\<lambda>x. x \<noteq> c) (v @ c # a) = v \<and> dropWhile (\<lambda>x. x \<noteq> c) (v @ c # a) = c # a"
  by (induction v) auto

text \<open>
  C5. For a virtual host name and an application name without \<^verbatim>\<open>#\<close>,
  \<open>ResolveApplicationName\<close> gives the canonical form \<^verbatim>\<open><vhost>#<app>\<close> and
  \<open>ParseVHostAppName\<close> gives the two names back.
\<close>

theorem Parse_Resolve_roundtrip:
  "CHR ''#'' \<notin> set v \<Longrightarrow> CHR ''#'' \<notin> set a \<Longrightarrow>
   ResolveApplicationName v a = v @ ''#'' @ a \<and>
   ParseVHostAppName (ResolveApplicationName v a) = Some (v, a)"
  using takeWhile_dropWhile_sep [of "CHR ''#''" v a]
  by (simp add: ResolveApplicationName_def ParseVHostAppName_def)

theorem Parse_Resolve_roundtrip_witness:
  "CHR ''#'' \<notin> set ''h1'' \<and> CHR ''#'' \<notin> set ''live'' \<and>
   ResolveApplicationName ''h1'' ''live'' = ''h1#live'' \<and>
   ParseVHostAppName ''h1#live'' = Some (''h1'', ''live'')"
proof -
  have v: "CHR ''#'' \<notin> set ''h1''" and a: "CHR ''#'' \<notin> set ''live''" by simp_all
  have r: "ResolveApplicationName ''h1'' ''live'' = ''h1#live''"
    using Parse_Resolve_roundtrip [OF v a] by simp
  have "ParseVHostAppName (ResolveApplicationName ''h1'' ''live'') = Some (''h1'', ''live'')"
    using Parse_Resolve_roundtrip [OF v a] by blast
  then have p: "ParseVHostAppName ''h1#live'' = Some (''h1'', ''live'')" unfolding r .
  from v a r p show ?thesis by blast
qed

section \<open>The registry under sequences of calls\<close>

lemma registry_inv_iff:
  "registry_inv r \<longleftrightarrow> distinct (map module (module_list r)) \<and>
     (\<forall>kind. module_map r kind = map module (filter (\<lambda>info. type info = kind) (module_list r)))"
proof -
  have "(\<forall>kind. P kind) \<longleftrightarrow>
        list_all P [UnknownModule, ProviderModule, MediaRouterModule, TranscoderModule, PublisherModule]"
    for P :: "OrchestratorModuleType \<Rightarrow> bool"
  proof
    assume "\<forall>kind. P kind" then show "list_all P [UnknownModule, ProviderModule, MediaRouterModule, TranscoderModule, PublisherModule]" by simp
  next
    assume a: "list_all P [UnknownModule, ProviderModule, MediaRouterModule, TranscoderModule, PublisherModule]"
    show "\<forall>kind. P kind"
    proof
      fix kind show "P kind" using a by (cases kind) simp_all
    qed
  qed
  then show ?thesis unfolding registry_inv_def by simp
qed

lemma registry_inv_empty: "registry_inv empty_registry"
  by (simp add: registry_inv_iff empty_registry_def)

lemma RegisterModule_inv:
  assumes "registry_inv r"
  shows "registry_inv (snd (RegisterModule kind m r))"
proof (cases "registered r m")
  case True
  with assms show ?thesis by (simp add: RegisterModule_def)
next
  case False
  from assms have d: "distinct (map module (module_list r))"
    and k: "\<And>kind. module_map r kind = map module (filter (\<lambda>info. type info = kind) (module_list r))"
    by (simp_all add: registry_inv_iff)
  from False have n: "m \<notin> set (map module (module_list r))" by (simp add: registered_def)
  have "distinct (map module (push_back (module_list r) \<lparr>type = kind, module = m\<rparr>))"
    using d n by (simp add: push_back_def)
  moreover have "\<forall>kind'. ((module_map r)(kind := push_back (module_map r kind) m)) kind' =
      map module (filter (\<lambda>info. type info = kind') (push_back (module_list r) \<lparr>type = kind, module = m\<rparr>))"
    by (simp add: push_back_def k)
  ultimately show ?thesis using False
    by (simp add: RegisterModule_def registry_inv_iff)
qed

lemma filter_module_commute:
  "filter (\<lambda>m'. m' \<noteq> m) (map module (filter Q xs)) =
   map module (filter Q (filter (\<lambda>info. module info \<noteq> m) xs))"
  by (induction xs) simp_all

lemma UnregisterModule_inv:
  assumes "registry_inv r"
  shows "registry_inv (snd (UnregisterModule m r))"
proof (cases "registered r m")
  case False
  with assms show ?thesis by (simp add: UnregisterModule_def)
next
  case True
  from assms have d: "distinct (map module (module_list r))"
    and k: "\<And>kind. module_map r kind = map module (filter (\<lambda>info. type info = kind) (module_list r))"
    by (simp_all add: registry_inv_iff)
  have "distinct (map module (filter (\<lambda>info. module info \<noteq> m) (module_list r)))"
    using d by (rule distinct_map_filter)
  moreover have "\<forall>kind. filter (\<lambda>m'. m' \<noteq> m) (module_map r kind) =
      map module (filter (\<lambda>info. type info = kind) (filter (\<lambda>info. module info \<noteq> m) (module_list r)))"
    by (simp only: k filter_module_commute) simp
  ultimately show ?thesis using True
    by (simp add: UnregisterModule_def registry_inv_iff)
qed

lemma registry_step_inv: "registry_inv r \<Longrightarrow> registry_inv (snd (registry_step c r))"
  by (cases c) (simp_all add: RegisterModule_inv UnregisterModule_inv)

lemma run_registry_Cons:
  "snd (run_registry (c # cs) r) = snd (run_registry cs (snd (registry_step c r)))"
  "fst (run_registry (c # cs) r) =
     fst (registry_step c r) # fst (run_registry cs (snd (registry_step c r)))"
  by (auto split: prod.splits)

lemma run_registry_inv: "registry_inv r \<Longrightarrow> registry_inv (snd (run_registry cs r))"
proof (induction cs arbitrary: r)
  case Nil then show ?case by simp
next
  case (Cons c cs)
  from Cons.prems have "registry_inv (snd (registry_step c r))" by (rule registry_step_inv)
  then have "registry_inv (snd (run_registry cs (snd (registry_step c r))))" by (rule Cons.IH)
  then show ?case by (simp only: run_registry_Cons)
qed

lemma RegisterModule_set: "modules_of (snd (RegisterModule kind m r)) = insert m (modules_of r)"
  by (auto simp add: modules_of_def RegisterModule_def registered_def push_back_def)

lemma UnregisterModule_set: "modules_of (snd (UnregisterModule m r)) = modules_of r - {m}"
  by (auto simp add: modules_of_def UnregisterModule_def registered_def)

lemma run_registry_set:
  "modules_of (snd (run_registry cs r)) = set_difference cs (modules_of r)"
proof (induction cs arbitrary: r)
  case Nil then show ?case by simp
next
  case (Cons c cs)
  show ?case
  proof (cases c)
    case (Register kind m)
    then show ?thesis using Cons.IH [of "snd (RegisterModule kind m r)"]
      by (simp add: RegisterModule_set run_registry_Cons del: run_registry.simps)
  next
    case (Unregister m)
    then show ?thesis using Cons.IH [of "snd (UnregisterModule m r)"]
      by (simp add: UnregisterModule_set run_registry_Cons del: run_registry.simps)
  qed
qed

lemma run_registry_returns:
  "fst (run_registry cs r) = set_returns cs (modules_of r)"
proof (induction cs arbitrary: r)
  case Nil then show ?case by simp
next
  case (Cons c cs)
  show ?case
  proof (cases c)
    case (Register kind m)
    have "fst (RegisterModule kind m r) = (m \<notin> modules_of r)"
      by (simp add: RegisterModule_def registered_def modules_of_def)
    then show ?thesis using Register Cons.IH [of "snd (RegisterModule kind m r)"]
      by (simp add: RegisterModule_set run_registry_Cons del: run_registry.simps)
  next
    case (Unregister m)
    have "fst (UnregisterModule m r) = (m \<in> modules_of r)"
      by (simp add: UnregisterModule_def registered_def modules_of_def)
    then show ?thesis using Unregister Cons.IH [of "snd (UnregisterModule m r)"]
      by (simp add: UnregisterModule_set run_registry_Cons del: run_registry.simps)
  qed
qed

text \<open>
  C4. After any sequence of \<open>RegisterModule\<close> and \<open>UnregisterModule\<close> calls on the empty
  registry, no module appears twice in the list, the grouping by kind agrees with the
  list, the modules of the list are those that the calls, read as insertions into and
  removals from a set, leave, and the calls return what they return on that set. \<open>RegisterModule\<close> appends a module that is absent and returns
  true; it returns false for a reference that is present, whatever the kind, and
  \<open>UnregisterModule\<close> returns false for a module that is not found; the two rejections
  leave the registry as it was. \<open>UnregisterModule\<close> of a module that is present returns
  true and removes it.
\<close>

theorem registry_sequence:
  "registry_inv (snd (run_registry cs empty_registry)) \<and>
   fst (run_registry cs empty_registry) = set_returns cs {} \<and>
   distinct (map module (module_list (snd (run_registry cs empty_registry)))) \<and>
   set (map module (module_list (snd (run_registry cs empty_registry)))) = set_difference cs {} \<and>
   (\<not> registered r m \<longrightarrow>
      fst (RegisterModule kind m r) \<and>
      module_list (snd (RegisterModule kind m r)) = module_list r @ [\<lparr>type = kind, module = m\<rparr>] \<and>
      registered (snd (RegisterModule kind m r)) m) \<and>
   (registered r m \<longrightarrow> RegisterModule kind m r = (False, r)) \<and>
   (\<not> registered r m \<longrightarrow> UnregisterModule m r = (False, r)) \<and>
   (registered r m \<longrightarrow>
      fst (UnregisterModule m r) \<and> \<not> registered (snd (UnregisterModule m r)) m)"
proof -
  have inv: "registry_inv (snd (run_registry cs empty_registry))"
    using registry_inv_empty by (rule run_registry_inv)
  have s: "modules_of (snd (run_registry cs empty_registry)) = set_difference cs {}"
    by (simp add: run_registry_set) (simp add: modules_of_def empty_registry_def)
  have b: "fst (run_registry cs empty_registry) = set_returns cs {}"
    by (simp add: run_registry_returns) (simp add: modules_of_def empty_registry_def)
  show ?thesis
    using inv s b
    by (auto simp add: registry_inv_iff modules_of_def RegisterModule_def UnregisterModule_def
        registered_def push_back_def)
qed

theorem registry_sequence_witness:
  "registered s3_registry 1 \<and> \<not> registered s3_registry 7 \<and>
   RegisterModule ProviderModule 1 s3_registry = (False, s3_registry) \<and>
   fst (RegisterModule ProviderModule 7 s3_registry) \<and>
   UnregisterModule 7 s3_registry = (False, s3_registry) \<and>
   fst (UnregisterModule 1 s3_registry) \<and>
   set (map module (module_list (snd (run_registry
       [Register MediaRouterModule 1, Register PublisherModule 2, Register ProviderModule 1,
        Unregister 2, Unregister 5] empty_registry)))) = {1} \<and>
   fst (run_registry
       [Register MediaRouterModule 1, Register PublisherModule 2, Register ProviderModule 1,
        Unregister 2, Unregister 5] empty_registry) = [True, True, False, True, False]"
proof -
  have r1: "registered s3_registry 1" and r7: "\<not> registered s3_registry 7"
    by (simp_all add: s3_registry_def empty_registry_def RegisterModule_def registered_def push_back_def)
  have d: "set_difference [Register MediaRouterModule 1, Register PublisherModule 2,
        Register ProviderModule 1, Unregister 2, Unregister 5] {} = {1}"
    by auto
  have b: "set_returns [Register MediaRouterModule 1, Register PublisherModule 2,
        Register ProviderModule 1, Unregister 2, Unregister 5] {} = [True, True, False, True, False]"
    by simp
  from registry_sequence [of "[Register MediaRouterModule 1, Register PublisherModule 2,
        Register ProviderModule 1, Unregister 2, Unregister 5]" s3_registry 1 ProviderModule]
       registry_sequence [of "[]" s3_registry 7 ProviderModule] r1 r7 d b
  show ?thesis by simp
qed

section \<open>Rollback of a failed \<open>CreateApplication\<close>\<close>

lemma created_modules_append:
  "created_modules info (xs @ ys) = created_modules info xs @ created_modules info ys"
  by (induction info xs rule: created_modules.induct) simp_all

lemma deleted_modules_append:
  "deleted_modules info (xs @ ys) = deleted_modules info xs @ deleted_modules info ys"
  by (induction info xs rule: deleted_modules.induct) simp_all

lemma create_fan_out_calls:
  "\<exists>acc new. create_fan_out on_create info ms created log =
       (fst (create_fan_out on_create info ms created log), created @ acc, log @ new) \<and>
     created_modules info new = acc \<and> deleted_modules info new = [] \<and>
     (\<forall>H. fold (hold_step info) new H = H \<union> set acc)"
proof (induction ms arbitrary: created log)
  case Nil
  show ?case by simp
next
  case (Cons m ms)
  show ?case
  proof (cases "on_create log m info")
    case False
    then show ?thesis by (simp add: push_back_def)
  next
    case True
    from Cons.IH [of "push_back created m" "push_back log (OnCreateApplication m info True)"]
    obtain acc new where
      eq: "create_fan_out on_create info ms (push_back created m)
             (push_back log (OnCreateApplication m info True)) =
           (fst (create_fan_out on_create info ms (push_back created m)
                   (push_back log (OnCreateApplication m info True))),
            push_back created m @ acc, push_back log (OnCreateApplication m info True) @ new)"
      and c: "created_modules info new = acc"
      and d: "deleted_modules info new = []"
      and h: "\<forall>H. fold (hold_step info) new H = H \<union> set acc"
      by blast
    let ?new = "OnCreateApplication m info True # new"
    have "create_fan_out on_create info (m # ms) created log =
            (fst (create_fan_out on_create info (m # ms) created log),
             created @ (m # acc), log @ ?new)"
      using True eq by (simp add: push_back_def)
    moreover have "created_modules info ?new = m # acc" using c by simp
    moreover have "deleted_modules info ?new = []" using d by simp
    moreover have "\<forall>H. fold (hold_step info) ?new H = H \<union> set (m # acc)" using h by simp
    ultimately show ?thesis by blast
  qed
qed

lemma delete_fan_out_calls:
  "\<exists>new. delete_fan_out on_delete info ms log = log @ new \<and>
     created_modules info new = [] \<and> deleted_modules info new = ms \<and>
     length new = length ms \<and>
     (\<forall>H. fold (hold_step info) new H = H - set ms)"
proof (induction ms arbitrary: log)
  case Nil
  show ?case by simp
next
  case (Cons m ms)
  let ?c = "OnDeleteApplication m info (on_delete log m info)"
  from Cons.IH [of "push_back log ?c"]
  obtain new where
    eq: "delete_fan_out on_delete info ms (push_back log ?c) = push_back log ?c @ new"
    and c: "created_modules info new = []"
    and d: "deleted_modules info new = ms"
    and l: "length new = length ms"
    and h: "\<forall>H. fold (hold_step info) new H = H - set ms"
    by blast
  have "delete_fan_out on_delete info (m # ms) log = log @ (?c # new)"
    using eq by (simp add: push_back_def)
  moreover have "created_modules info (?c # new) = []" using c by simp
  moreover have "deleted_modules info (?c # new) = m # ms" using d by simp
  moreover have "length (?c # new) = length (m # ms)" using l by simp
  moreover have "\<forall>H. fold (hold_step info) (?c # new) H = H - set (m # ms)" using h by auto
  ultimately show ?case by blast
qed

text \<open>
  The fan-out over modules that all accept: it runs through them, records each as created
  and logs each call with the answer true. A module accepts when its answer to the calls
  made so far is true.
\<close>

lemma create_fan_out_accepted:
  assumes "\<forall>i < length ms1.
             on_create (log @ map (\<lambda>m'. OnCreateApplication m' info True) (take i ms1))
               (ms1 ! i) info"
  shows "create_fan_out on_create info (ms1 @ rest) created log =
         create_fan_out on_create info rest (created @ ms1)
           (log @ map (\<lambda>m'. OnCreateApplication m' info True) ms1)"
  using assms
proof (induction ms1 arbitrary: created log)
  case Nil
  show ?case by simp
next
  case (Cons m ms1)
  from Cons.prems have first: "on_create log m info" by fastforce
  have rest: "\<forall>i < length ms1.
      on_create (push_back log (OnCreateApplication m info True) @
                   map (\<lambda>m'. OnCreateApplication m' info True) (take i ms1))
        (ms1 ! i) info"
  proof (intro allI impI)
    fix i assume "i < length ms1"
    then have "Suc i < length (m # ms1)" by simp
    with Cons.prems have
      "on_create (log @ map (\<lambda>m'. OnCreateApplication m' info True) (take (Suc i) (m # ms1)))
         ((m # ms1) ! Suc i) info" by blast
    then show "on_create (push_back log (OnCreateApplication m info True) @
                   map (\<lambda>m'. OnCreateApplication m' info True) (take i ms1))
        (ms1 ! i) info"
      by (simp add: push_back_def)
  qed
  from Cons.IH [OF rest, of "push_back created m"] first
  show ?case by (simp add: push_back_def)
qed

text \<open>The result of \<open>CreateApplication\<close> when a module of the fan-out refuses.\<close>

lemma CreateApplication_module_failure:
  assumes fresh: "\<not> list_ex (\<lambda>entry. GetName (app_info (snd entry)) = cfg_GetName app_config)
                      (app_map vhost)"
    and order: "fan_out_order (registry st) = ms1 @ m # ms2"
    and accepted: "\<forall>i < length ms1.
        on_create (calls st @ map (\<lambda>m'. OnCreateApplication m' (new_app_info st app_config) True)
                                 (take i ms1))
          (ms1 ! i) (new_app_info st app_config)"
    and refused: "\<not> on_create
        (calls st @ map (\<lambda>m'. OnCreateApplication m' (new_app_info st app_config) True) ms1)
        m (new_app_info st app_config)"
  shows "\<exists>deletes.
           CreateApplication on_create on_delete vhost app_config st =
             (Failed, vhost,
              (snd (GetNextAppId st))
                \<lparr>calls := calls st @
                   map (\<lambda>m'. OnCreateApplication m' (new_app_info st app_config) True) ms1 @
                   [OnCreateApplication m (new_app_info st app_config) False] @ deletes\<rparr>) \<and>
           length deletes = length ms1 \<and>
           deleted_modules (new_app_info st app_config) deletes = rev ms1"
proof -
  let ?info = "new_app_info st app_config"
  let ?st1 = "snd (GetNextAppId st)"
  let ?creates = "map (\<lambda>m'. OnCreateApplication m' ?info True) ms1"
  have st1: "calls ?st1 = calls st" "registry ?st1 = registry st"
    by (simp_all add: GetNextAppId_def)
  have "create_fan_out on_create ?info (ms1 @ m # ms2) [] (calls st) =
        create_fan_out on_create ?info (m # ms2) ([] @ ms1) (calls st @ ?creates)"
    using accepted by (rule create_fan_out_accepted)
  also have "\<dots> = (False, ms1, calls st @ ?creates @ [OnCreateApplication m ?info False])"
    using refused by (simp add: push_back_def)
  finally have fan: "create_fan_out on_create ?info (fan_out_order (registry ?st1)) [] (calls ?st1) =
      (False, ms1, calls st @ ?creates @ [OnCreateApplication m ?info False])"
    by (simp add: st1 order)
  from delete_fan_out_calls
         [of on_delete ?info "rev ms1" "calls st @ ?creates @ [OnCreateApplication m ?info False]"]
  obtain deletes where
    del: "delete_fan_out on_delete ?info (rev ms1)
            (calls st @ ?creates @ [OnCreateApplication m ?info False]) =
          (calls st @ ?creates @ [OnCreateApplication m ?info False]) @ deletes"
    and d: "deleted_modules ?info deletes = rev ms1"
    and l: "length deletes = length (rev ms1)"
    by blast
  have "CreateApplication on_create on_delete vhost app_config st =
      (Failed, vhost,
       ?st1\<lparr>calls := calls st @ ?creates @ [OnCreateApplication m ?info False] @ deletes\<rparr>)"
    using fresh fan del by (simp add: CreateApplication_def Let_def)
  with d l show ?thesis by (intro exI [of _ deletes]) simp
qed

text \<open>What a result \<open>Failed\<close> says of the calls made and of the state returned.\<close>

lemma CreateApplication_Failed_calls:
  assumes failed: "fst (CreateApplication on_create on_delete vhost app_config st) = Failed"
  shows "\<exists>creates deletes.
           calls (snd (snd (CreateApplication on_create on_delete vhost app_config st))) =
             calls st @ creates @ deletes \<and>
           deleted_modules (new_app_info st app_config) creates = [] \<and>
           created_modules (new_app_info st app_config) deletes = [] \<and>
           deleted_modules (new_app_info st app_config) deletes =
             rev (created_modules (new_app_info st app_config) creates) \<and>
           holders (new_app_info st app_config) (creates @ deletes) = {} \<and>
           (holders (new_app_info st app_config) (calls st) = {} \<longrightarrow>
              card (holders (new_app_info st app_config)
                     (calls (snd (snd (CreateApplication on_create on_delete vhost app_config st))))) = 0) \<and>
           fst (snd (CreateApplication on_create on_delete vhost app_config st)) = vhost \<and>
           registry (snd (snd (CreateApplication on_create on_delete vhost app_config st))) =
             registry st"
proof -
  let ?info = "new_app_info st app_config"
  let ?st1 = "snd (GetNextAppId st)"
  let ?fan = "create_fan_out on_create ?info (fan_out_order (registry ?st1)) [] (calls ?st1)"
  have calls1: "calls ?st1 = calls st" by (simp add: GetNextAppId_def)
  from create_fan_out_calls [of on_create ?info "fan_out_order (registry ?st1)" "[]" "calls ?st1"]
  obtain acc creates where
    fan: "?fan = (fst ?fan, [] @ acc, calls ?st1 @ creates)"
    and c1: "created_modules ?info creates = acc"
    and d1: "deleted_modules ?info creates = []"
    and h1: "\<forall>H. fold (hold_step ?info) creates H = H \<union> set acc"
    by blast
  from delete_fan_out_calls [of on_delete ?info "rev acc" "calls st @ creates"]
  obtain deletes where
    del: "delete_fan_out on_delete ?info (rev acc) (calls st @ creates) = (calls st @ creates) @ deletes"
    and c2: "created_modules ?info deletes = []"
    and d2: "deleted_modules ?info deletes = rev acc"
    and h2: "\<forall>H. fold (hold_step ?info) deletes H = H - set (rev acc)"
    by blast
  have not_exists: "\<not> list_ex (\<lambda>entry. GetName (app_info (snd entry)) = cfg_GetName app_config) (app_map vhost)"
    using failed by (auto simp add: CreateApplication_def)
  have not_ok: "\<not> fst ?fan"
  proof
    assume "fst ?fan"
    with fan have "?fan = (True, [] @ acc, calls ?st1 @ creates)" by simp
    with not_exists have "fst (CreateApplication on_create on_delete vhost app_config st) = Succeeded"
      by (simp add: CreateApplication_def Let_def)
    with failed show False by simp
  qed
  with fan have fan': "?fan = (False, acc, calls st @ creates)" by (simp add: calls1)
  have res: "CreateApplication on_create on_delete vhost app_config st =
      (Failed, vhost, ?st1\<lparr>calls := calls st @ creates @ deletes\<rparr>)"
    using not_exists fan' del by (simp add: CreateApplication_def Let_def)
  have hold_new: "\<And>H. fold (hold_step ?info) (creates @ deletes) H = (H \<union> set acc) - set acc"
    using h1 h2 by simp
  have "holders ?info (creates @ deletes) = {}"
    unfolding holders_def using hold_new [of "{}"] by simp
  moreover have "holders ?info (calls st) = {} \<longrightarrow>
      card (holders ?info (calls st @ creates @ deletes)) = 0"
    unfolding holders_def using hold_new by simp
  moreover have "registry ?st1 = registry st" by (simp add: GetNextAppId_def)
  ultimately show ?thesis
    using res c1 d1 c2 d2 by (intro exI [of _ creates] exI [of _ deletes]) simp
qed

text \<open>
  C1. When a module of the create fan-out refuses (the virtual host has no application of
  the name, the modules \<open>ms1\<close> before \<open>m\<close> in the fan-out order each accept, and \<open>m\<close>
  returns false), \<open>CreateApplication\<close> returns \<open>Failed\<close>, and the calls it made are the
  accepted creations, the refused one, and then one \<open>OnDeleteApplication\<close> for each
  module that created, in reverse order. And whenever \<open>CreateApplication\<close> returns
  \<open>Failed\<close>, the calls it made are creations followed by deletions, sent to exactly the
  modules whose \<open>OnCreateApplication\<close> returned true, in reverse order; none of the modules
  called holds the application any more, so that the number of modules holding it is zero
  when none held it before; and the virtual host, with its \<open>app_map\<close>, and the registry are
  returned as they were.
\<close>

theorem CreateApplication_failed_rollback:
  "(\<not> list_ex (\<lambda>entry. GetName (app_info (snd entry)) = cfg_GetName app_config) (app_map vhost) \<and>
    fan_out_order (registry st) = ms1 @ m # ms2 \<and>
    (\<forall>i < length ms1.
        on_create (calls st @ map (\<lambda>m'. OnCreateApplication m' (new_app_info st app_config) True)
                                 (take i ms1))
          (ms1 ! i) (new_app_info st app_config)) \<and>
    \<not> on_create
        (calls st @ map (\<lambda>m'. OnCreateApplication m' (new_app_info st app_config) True) ms1)
        m (new_app_info st app_config) \<longrightarrow>
      fst (CreateApplication on_create on_delete vhost app_config st) = Failed \<and>
      (\<exists>deletes.
          calls (snd (snd (CreateApplication on_create on_delete vhost app_config st))) =
            calls st @
            map (\<lambda>m'. OnCreateApplication m' (new_app_info st app_config) True) ms1 @
            [OnCreateApplication m (new_app_info st app_config) False] @ deletes \<and>
          length deletes = length ms1 \<and>
          deleted_modules (new_app_info st app_config) deletes = rev ms1)) \<and>
   (fst (CreateApplication on_create on_delete vhost app_config st) = Failed \<longrightarrow>
      (\<exists>creates deletes.
           calls (snd (snd (CreateApplication on_create on_delete vhost app_config st))) =
             calls st @ creates @ deletes \<and>
           deleted_modules (new_app_info st app_config) creates = [] \<and>
           created_modules (new_app_info st app_config) deletes = [] \<and>
           deleted_modules (new_app_info st app_config) deletes =
             rev (created_modules (new_app_info st app_config) creates) \<and>
           holders (new_app_info st app_config) (creates @ deletes) = {} \<and>
           (holders (new_app_info st app_config) (calls st) = {} \<longrightarrow>
              card (holders (new_app_info st app_config)
                     (calls (snd (snd (CreateApplication on_create on_delete vhost app_config st))))) = 0) \<and>
           fst (snd (CreateApplication on_create on_delete vhost app_config st)) = vhost \<and>
           registry (snd (snd (CreateApplication on_create on_delete vhost app_config st))) =
             registry st))"
proof (intro conjI impI)
  assume h: "\<not> list_ex (\<lambda>entry. GetName (app_info (snd entry)) = cfg_GetName app_config) (app_map vhost) \<and>
    fan_out_order (registry st) = ms1 @ m # ms2 \<and>
    (\<forall>i < length ms1.
        on_create (calls st @ map (\<lambda>m'. OnCreateApplication m' (new_app_info st app_config) True)
                                 (take i ms1))
          (ms1 ! i) (new_app_info st app_config)) \<and>
    \<not> on_create
        (calls st @ map (\<lambda>m'. OnCreateApplication m' (new_app_info st app_config) True) ms1)
        m (new_app_info st app_config)"
  from h have fresh: "\<not> list_ex (\<lambda>entry. GetName (app_info (snd entry)) = cfg_GetName app_config)
      (app_map vhost)" by blast
  from h have order: "fan_out_order (registry st) = ms1 @ m # ms2" by blast
  from h have accepted: "\<forall>i < length ms1.
        on_create (calls st @ map (\<lambda>m'. OnCreateApplication m' (new_app_info st app_config) True)
                                 (take i ms1))
          (ms1 ! i) (new_app_info st app_config)" by blast
  from h have refused: "\<not> on_create
        (calls st @ map (\<lambda>m'. OnCreateApplication m' (new_app_info st app_config) True) ms1)
        m (new_app_info st app_config)" by blast
  from CreateApplication_module_failure
         [where on_create = on_create and on_delete = on_delete and vhost = vhost
            and app_config = app_config and st = st and ?ms1.0 = ms1 and m = m and ?ms2.0 = ms2,
          OF fresh order accepted refused]
  obtain deletes where
    res: "CreateApplication on_create on_delete vhost app_config st =
             (Failed, vhost,
              (snd (GetNextAppId st))
                \<lparr>calls := calls st @
                   map (\<lambda>m'. OnCreateApplication m' (new_app_info st app_config) True) ms1 @
                   [OnCreateApplication m (new_app_info st app_config) False] @ deletes\<rparr>)"
    and l: "length deletes = length ms1"
    and d: "deleted_modules (new_app_info st app_config) deletes = rev ms1"
    by blast
  show "fst (CreateApplication on_create on_delete vhost app_config st) = Failed"
    by (simp add: res)
  show "\<exists>deletes.
          calls (snd (snd (CreateApplication on_create on_delete vhost app_config st))) =
            calls st @
            map (\<lambda>m'. OnCreateApplication m' (new_app_info st app_config) True) ms1 @
            [OnCreateApplication m (new_app_info st app_config) False] @ deletes \<and>
          length deletes = length ms1 \<and>
          deleted_modules (new_app_info st app_config) deletes = rev ms1"
    using l d by (intro exI [of _ deletes]) (simp add: res)
next
  assume "fst (CreateApplication on_create on_delete vhost app_config st) = Failed"
  then show "\<exists>creates deletes.
           calls (snd (snd (CreateApplication on_create on_delete vhost app_config st))) =
             calls st @ creates @ deletes \<and>
           deleted_modules (new_app_info st app_config) creates = [] \<and>
           created_modules (new_app_info st app_config) deletes = [] \<and>
           deleted_modules (new_app_info st app_config) deletes =
             rev (created_modules (new_app_info st app_config) creates) \<and>
           holders (new_app_info st app_config) (creates @ deletes) = {} \<and>
           (holders (new_app_info st app_config) (calls st) = {} \<longrightarrow>
              card (holders (new_app_info st app_config)
                     (calls (snd (snd (CreateApplication on_create on_delete vhost app_config st))))) = 0) \<and>
           fst (snd (CreateApplication on_create on_delete vhost app_config st)) = vhost \<and>
           registry (snd (snd (CreateApplication on_create on_delete vhost app_config st))) =
             registry st"
    by (rule CreateApplication_Failed_calls)
qed

theorem CreateApplication_failed_rollback_witness:
  "\<not> list_ex (\<lambda>entry. GetName (app_info (snd entry)) = ''live'') (app_map s3_vhost) \<and>
   fan_out_order (registry s3_coordinator) = [1, 2] @ 3 # [] \<and>
   s3_on_create [] 1 s3_app \<and>
   s3_on_create [OnCreateApplication 1 s3_app True] 2 s3_app \<and>
   \<not> s3_on_create [OnCreateApplication 1 s3_app True, OnCreateApplication 2 s3_app True] 3 s3_app \<and>
   fst (CreateApplication s3_on_create s3_on_delete s3_vhost \<lparr> cfg_GetName = ''live'' \<rparr> s3_coordinator) = Failed \<and>
   deleted_modules s3_app
     (calls (snd (snd (CreateApplication s3_on_create s3_on_delete s3_vhost \<lparr> cfg_GetName = ''live'' \<rparr> s3_coordinator)))) =
     [2, 1] \<and>
   card (holders s3_app
     (calls (snd (snd (CreateApplication s3_on_create s3_on_delete s3_vhost \<lparr> cfg_GetName = ''live'' \<rparr> s3_coordinator))))) = 0 \<and>
   calls (snd (snd (CreateApplication s3_on_create s3_on_delete s3_vhost \<lparr> cfg_GetName = ''live'' \<rparr> s3_coordinator))) =
     [OnCreateApplication 1 s3_app True, OnCreateApplication 2 s3_app True,
      OnCreateApplication 3 s3_app False,
      OnDeleteApplication 2 s3_app True, OnDeleteApplication 1 s3_app True]"
proof -
  let ?cfg = "\<lparr> cfg_GetName = ''live'' \<rparr>"
  let ?run = "CreateApplication s3_on_create s3_on_delete s3_vhost ?cfg s3_coordinator"
  note th = CreateApplication_failed_rollback
              [where app_config = ?cfg and vhost = s3_vhost and st = s3_coordinator
                 and ?ms1.0 = "[1, 2]" and m = 3 and ?ms2.0 = "[]"
                 and on_create = s3_on_create and on_delete = s3_on_delete]
  have info: "new_app_info s3_coordinator ?cfg = s3_app"
    by (simp add: new_app_info_def GetNextAppId_def s3_coordinator_def s3_app_def)
  have fresh: "\<not> list_ex (\<lambda>entry. GetName (app_info (snd entry)) = cfg_GetName ?cfg)
      (app_map s3_vhost)"
    by (simp add: s3_vhost_def VirtualHost_ctor_def)
  have order: "fan_out_order (registry s3_coordinator) = [1, 2] @ 3 # []"
    by (simp add: fan_out_order_def ModulesOfKind_def s3_coordinator_def s3_registry_def
        empty_registry_def RegisterModule_def registered_def push_back_def)
  have none: "calls s3_coordinator = []" by (simp add: s3_coordinator_def)
  have a1: "s3_on_create [] 1 s3_app"
    and a2: "s3_on_create [OnCreateApplication 1 s3_app True] 2 s3_app"
    and r3: "\<not> s3_on_create [OnCreateApplication 1 s3_app True, OnCreateApplication 2 s3_app True]
               3 s3_app"
    by (simp_all add: s3_on_create_def)
  have accepted: "\<forall>i < length [1, 2 :: nat].
      s3_on_create (calls s3_coordinator @
          map (\<lambda>m'. OnCreateApplication m' (new_app_info s3_coordinator ?cfg) True)
            (take i [1, 2]))
        ([1, 2] ! i) (new_app_info s3_coordinator ?cfg)"
    by (simp add: s3_on_create_def nth_Cons split: nat.split)
  have refused: "\<not> s3_on_create (calls s3_coordinator @
          map (\<lambda>m'. OnCreateApplication m' (new_app_info s3_coordinator ?cfg) True) [1, 2])
        3 (new_app_info s3_coordinator ?cfg)"
    by (simp add: s3_on_create_def)
  from th fresh order accepted refused
  have failed: "fst ?run = Failed" by blast
  from th fresh order accepted refused
  obtain deletes where
    c: "calls (snd (snd ?run)) =
          calls s3_coordinator @
          map (\<lambda>m'. OnCreateApplication m' (new_app_info s3_coordinator ?cfg) True) [1, 2] @
          [OnCreateApplication 3 (new_app_info s3_coordinator ?cfg) False] @ deletes"
    and d: "deleted_modules (new_app_info s3_coordinator ?cfg) deletes = rev [1, 2]"
    by blast
  have dm: "deleted_modules s3_app (calls (snd (snd ?run))) = [2, 1]"
    using d by (simp add: c info none)
  have empty: "holders s3_app (calls s3_coordinator) = {}"
    by (simp add: holders_def none)
  from th failed empty info
  have zero: "card (holders s3_app (calls (snd (snd ?run)))) = 0" by auto
  have run: "calls (snd (snd ?run)) =
        [OnCreateApplication 1 s3_app True, OnCreateApplication 2 s3_app True,
         OnCreateApplication 3 s3_app False,
         OnDeleteApplication 2 s3_app True, OnDeleteApplication 1 s3_app True]"
    using order
    by (simp add: CreateApplication_def info Let_def)
       (simp add: s3_vhost_def VirtualHost_ctor_def GetNextAppId_def s3_coordinator_def
          s3_on_create_def s3_on_delete_def push_back_def)
  from fresh order a1 a2 r3 failed dm zero run show ?thesis by simp
qed

end
